theory Spec2Isabelle
  imports Main
begin

section \<open>JavaScript values used by the room\<close>

text \<open>
  The room handlers of \<^verbatim>\<open>src/rooms/PacverseRoom.ts\<close> receive untyped payloads
  (\<^verbatim>\<open>any\<close>) and use the builtins \<^verbatim>\<open>parseFloat\<close>, \<^verbatim>\<open>toString\<close>, template strings,
  truthiness and \<^verbatim>\<open>== null\<close>.  This section gives those builtins.

  Numbers: a finite number \<open>Fin m x\<close> stands for \<open>m * 10 ^ x\<close>; it is kept in
  canonical form (\<open>m\<close> not divisible by ten, zero as \<open>Fin 0 0\<close>).  Addition is exact
  decimal addition: the rounding of binary64 arithmetic is not modelled, and the two
  zeros are one value.  Printing follows Number::toString of ECMAScript on the decimal
  digits of the value, parsing follows the StrDecimalLiteral grammar of parseFloat
  on ASCII text.
\<close>

datatype jsnum = NaN | PosInf | NegInf | Fin int int

function norm_dec :: "int \<Rightarrow> int \<Rightarrow> jsnum" where
  "norm_dec m x =
     (if m = 0 then Fin 0 0
      else if m mod 10 = 0 then norm_dec (m div 10) (x + 1)
      else Fin m x)"
  by pat_completeness auto
termination
  by (relation "measure (\<lambda>(m, x). nat \<bar>m\<bar>)") auto

declare norm_dec.simps [simp del]

definition canonical :: "jsnum \<Rightarrow> bool" where
  "canonical n =
     (case n of Fin m x \<Rightarrow> (m = 0 \<and> x = 0) \<or> m mod 10 \<noteq> 0 | _ \<Rightarrow> True)"

fun num_add :: "jsnum \<Rightarrow> jsnum \<Rightarrow> jsnum" where
  "num_add NaN _ = NaN"
| "num_add _ NaN = NaN"
| "num_add PosInf NegInf = NaN"
| "num_add NegInf PosInf = NaN"
| "num_add PosInf _ = PosInf"
| "num_add _ PosInf = PosInf"
| "num_add NegInf _ = NegInf"
| "num_add _ NegInf = NegInf"
| "num_add (Fin m x) (Fin n y) =
     (let z = min x y
      in norm_dec (m * 10 ^ nat (x - z) + n * 10 ^ nat (y - z)) z)"

subsection \<open>Decimal digits\<close>

definition is_digit :: "char \<Rightarrow> bool" where
  "is_digit c = (48 \<le> (of_char c :: nat) \<and> (of_char c :: nat) \<le> 57)"

definition digit_val :: "char \<Rightarrow> nat" where
  "digit_val c = of_char c - 48"

definition digit_char :: "nat \<Rightarrow> char" where
  "digit_char d = char_of (48 + d)"

fun digits_of :: "nat \<Rightarrow> string" where
  "digits_of n =
     (if n < 10 then [digit_char n] else digits_of (n div 10) @ [digit_char (n mod 10)])"

declare digits_of.simps [simp del]

definition digits_val :: "string \<Rightarrow> nat" where
  "digits_val ds = foldl (\<lambda>a c. 10 * a + digit_val c) 0 ds"

subsection \<open>Number to string\<close>

text \<open>
  Number::toString: with \<open>s\<close> the digits of the value without trailing zeros,
  \<open>k\<close> their count and \<open>n\<close> the position of the decimal point (value = \<open>s * 10 ^ (n - k)\<close>),
  the four layouts of the standard, in its order.
\<close>

definition layout :: "string \<Rightarrow> int \<Rightarrow> string" where
  "layout ds x =
     (let k = int (length ds);
          n = k + x
      in if k \<le> n \<and> n \<le> 21 then ds @ replicate (nat (n - k)) (CHR ''0'')
         else if 0 < n \<and> n \<le> 21 then take (nat n) ds @ ''.'' @ drop (nat n) ds
         else if -6 < n \<and> n \<le> 0 then ''0.'' @ replicate (nat (- n)) (CHR ''0'') @ ds
         else
           (if k = 1 then ds else take 1 ds @ ''.'' @ drop 1 ds)
           @ ''e'' @ (if 0 \<le> n - 1 then ''+'' else ''-'')
           @ digits_of (nat \<bar>n - 1\<bar>))"

definition fin_toString :: "int \<Rightarrow> int \<Rightarrow> string" where
  "fin_toString m x =
     (if m = 0 then ''0''
      else (if m < 0 then ''-'' else []) @ layout (digits_of (nat \<bar>m\<bar>)) x)"

fun num_toString :: "jsnum \<Rightarrow> string" where
  "num_toString NaN = ''NaN''"
| "num_toString PosInf = ''Infinity''"
| "num_toString NegInf = ''-Infinity''"
| "num_toString (Fin m x) = fin_toString m x"

subsection \<open>parseFloat on a string\<close>

definition is_ws :: "char \<Rightarrow> bool" where
  "is_ws c = (c = CHR '' '' \<or> c = CHR 0x09 \<or> c = CHR 0x0A \<or> c = CHR 0x0B
              \<or> c = CHR 0x0C \<or> c = CHR 0x0D)"

definition is_prefix :: "string \<Rightarrow> string \<Rightarrow> bool" where
  "is_prefix p s = (take (length p) s = p)"

text \<open>The exponent part \<open>e\<close>, optional sign, digits; absent when no digit follows.\<close>

definition parse_exponent :: "string \<Rightarrow> int" where
  "parse_exponent r =
     (case r of
        [] \<Rightarrow> 0
      | c # r1 \<Rightarrow>
          if c = CHR ''e'' \<or> c = CHR ''E'' then
            (case r1 of
               [] \<Rightarrow> 0
             | d # r2 \<Rightarrow>
                 if d = CHR ''-'' then - int (digits_val (takeWhile is_digit r2))
                 else if d = CHR ''+'' then int (digits_val (takeWhile is_digit r2))
                 else int (digits_val (takeWhile is_digit r1)))
          else 0)"

definition parse_unsigned :: "bool \<Rightarrow> string \<Rightarrow> jsnum" where
  "parse_unsigned neg r =
     (if is_prefix ''Infinity'' r then (if neg then NegInf else PosInf)
      else
        let a = takeWhile is_digit r;
            r1 = dropWhile is_digit r;
            b = (case r1 of c # t \<Rightarrow> if c = CHR ''.'' then takeWhile is_digit t else [] | [] \<Rightarrow> []);
            r2 = (case r1 of c # t \<Rightarrow> if c = CHR ''.'' then dropWhile is_digit t else r1 | [] \<Rightarrow> [])
        in if a = [] \<and> b = [] then NaN
           else
             let v = int (digits_val (a @ b))
             in norm_dec (if neg then - v else v) (parse_exponent r2 - int (length b)))"

definition parseFloat_str :: "string \<Rightarrow> jsnum" where
  "parseFloat_str s =
     (case dropWhile is_ws s of
        [] \<Rightarrow> NaN
      | c # r \<Rightarrow>
          if c = CHR ''-'' then parse_unsigned True r
          else if c = CHR ''+'' then parse_unsigned False r
          else parse_unsigned False (c # r))"

subsection \<open>Primitive values\<close>

text \<open>
  A token of a command payload, an attribute value or an attribute key is a JSON
  primitive; \<open>JUndefined\<close> is also what an out-of-range read of an array yields.
\<close>

datatype jsval = JUndefined | JNull | JBool bool | JNum jsnum | JStr string

datatype js_error = TypeError

text \<open>ToString, as a template string and the argument of parseFloat apply it.\<close>

fun js_ToString :: "jsval \<Rightarrow> string" where
  "js_ToString JUndefined = ''undefined''"
| "js_ToString JNull = ''null''"
| "js_ToString (JBool b) = (if b then ''true'' else ''false'')"
| "js_ToString (JNum n) = num_toString n"
| "js_ToString (JStr s) = s"

text \<open>The method call \<^verbatim>\<open>v.toString()\<close>: reading a property of undefined or null throws.\<close>

fun method_toString :: "jsval \<Rightarrow> js_error + string" where
  "method_toString JUndefined = Inl TypeError"
| "method_toString JNull = Inl TypeError"
| "method_toString v = Inr (js_ToString v)"

definition js_parseFloat :: "jsval \<Rightarrow> jsnum" where
  "js_parseFloat v = parseFloat_str (js_ToString v)"

fun truthy :: "jsval \<Rightarrow> bool" where
  "truthy JUndefined = False"
| "truthy JNull = False"
| "truthy (JBool b) = b"
| "truthy (JNum n) = (n \<noteq> NaN \<and> n \<noteq> Fin 0 0)"
| "truthy (JStr s) = (s \<noteq> [])"

text \<open>The loose comparison \<^verbatim>\<open>v == null\<close>.\<close>

fun is_nullish :: "jsval \<Rightarrow> bool" where
  "is_nullish JUndefined = True"
| "is_nullish JNull = True"
| "is_nullish _ = False"

text \<open>\<^verbatim>\<open>data[i]\<close> on an array: undefined past the end.\<close>

definition data_at :: "jsval list \<Rightarrow> nat \<Rightarrow> jsval" where
  "data_at data i = (if i < length data then data ! i else JUndefined)"

text \<open>
  A value of the \<^verbatim>\<open>attributes\<close> object of a createEntity message: a primitive, or an
  array of primitives (\<^verbatim>\<open>creationPos\<close>, \<^verbatim>\<open>creationRot\<close>).
\<close>

datatype payload = Val jsval | Arr "jsval list"

text \<open>Array.prototype.join with a comma: undefined and null elements print as nothing.\<close>

fun join_elems :: "jsval list \<Rightarrow> string" where
  "join_elems [] = []"
| "join_elems [v] = (if is_nullish v then [] else js_ToString v)"
| "join_elems (v # vs) = (if is_nullish v then [] else js_ToString v) @ '','' @ join_elems vs"

fun payload_toString :: "payload \<Rightarrow> js_error + string" where
  "payload_toString (Val v) = method_toString v"
| "payload_toString (Arr vs) = Inr (join_elems vs)"

text \<open>\<^verbatim>\<open>v[i]\<close>: throws on undefined and null, reads a character of a string.\<close>

fun payload_index :: "payload \<Rightarrow> nat \<Rightarrow> js_error + jsval" where
  "payload_index (Val JUndefined) i = Inl TypeError"
| "payload_index (Val JNull) i = Inl TypeError"
| "payload_index (Val (JStr s)) i = Inr (if i < length s then JStr [s ! i] else JUndefined)"
| "payload_index (Val v) i = Inr JUndefined"
| "payload_index (Arr vs) i = Inr (data_at vs i)"

section \<open>Room state\<close>

text \<open>
  The schema classes \<^verbatim>\<open>ColyseusNetworkedEntity\<close>, \<^verbatim>\<open>ColyseusNetworkedUser\<close> and
  \<^verbatim>\<open>ColyseusRoomState\<close> are imported from \<^verbatim>\<open>./schema/ColyseusRoomState\<close>; the records
  below carry the fields the room reads and writes.  A field that the room has not
  assigned yet is \<open>None\<close>.  Attribute maps are keyed by the raw key handed to
  \<^verbatim>\<open>set\<close>/\<^verbatim>\<open>get\<close>; the entity and user collections are only ever written with string
  keys.
\<close>

record entity =
  entity_id :: string
  ownerId :: string
  creationId :: "jsval option"
  xPos :: "jsnum option"
  yPos :: "jsnum option"
  zPos :: "jsnum option"
  xRot :: "jsnum option"
  yRot :: "jsnum option"
  zRot :: "jsnum option"
  wRot :: "jsnum option"
  entity_timestamp :: "jsnum option"
  entity_attributes :: "jsval \<rightharpoonup> jsval"

text \<open>
  The join options: \<^verbatim>\<open>account\<close> is an optional string (\<open>None\<close> when the field is
  omitted), the other thirteen fields are opaque.  \<^verbatim>\<open>onJoin\<close> copies the fourteen
  fields one by one into the new user; the model copies them as one record.
\<close>

record profile =
  account :: "string option"
  userName :: jsval
  headMat :: jsval
  headColor :: jsval
  hairMat :: jsval
  hairColor :: jsval
  clothMat :: jsval
  clothColor :: jsval
  shoeMat :: jsval
  shoeColor :: jsval
  glassMat :: jsval
  glassColor :: jsval
  maskMat :: jsval
  maskColor :: jsval

record user =
  user_id :: string
  user_sessionId :: string
  user_profile :: profile
  connected :: bool
  user_timestamp :: "jsnum option"
  user_attributes :: "jsval \<rightharpoonup> jsval"

record client =
  client_id :: string
  client_sessionId :: string

text \<open>What a handler sends or asks of the framework, in order.\<close>

datatype effect =
    SendWalletNotPass client
  | SendOnJoin client user
  | AllowReconnection client nat
  | LogNoClientEntities string
  | LogNoNetworkedUser string
  | LogRoomLogicError

record room =
  networkedEntities :: "string \<rightharpoonup> entity"
  networkedUsers :: "string \<rightharpoonup> user"
  clientEntities :: "string \<rightharpoonup> string list"
  serverTime :: jsnum
  effects :: "effect list"

text \<open>
  A handler runs to completion or throws; what it wrote before throwing stays
  written, so both outcomes carry the room.
\<close>

datatype outcome = Completed room | Threw js_error room

fun state_of :: "outcome \<Rightarrow> room" where
  "state_of (Completed s) = s"
| "state_of (Threw e s) = s"

text \<open>\<^verbatim>\<open>parseFloat(this.serverTime.toString())\<close>\<close>

definition now :: "room \<Rightarrow> jsnum" where
  "now s = parseFloat_str (num_toString (serverTime s))"

text \<open>\<^verbatim>\<open>has\<close>/\<^verbatim>\<open>get\<close>/\<^verbatim>\<open>delete\<close> with a raw key: only a string can name a stored key.\<close>

fun get_raw :: "(string \<rightharpoonup> 'a) \<Rightarrow> jsval \<Rightarrow> 'a option" where
  "get_raw m (JStr k) = m k"
| "get_raw m _ = None"

section \<open>Handlers of PacverseRoom\<close>

subsection \<open>onEntityUpdate\<close>

definition attr_get :: "entity \<Rightarrow> jsval \<Rightarrow> jsval" where
  "attr_get e k = (case entity_attributes e k of None \<Rightarrow> JUndefined | Some v \<Rightarrow> v)"

text \<open>
  The loop \<^verbatim>\<open>for (let i = startIndex; i < data.length; i += 2)\<close> over the entity the
  handler holds.  \<open>assign\<close> is the direct-field write
  \<^verbatim>\<open>(stateToUpdate as any)[property] = updateValue\<close>: what it does to an entity is fixed by
  the schema class, so it is a parameter.  The result is the entity as the loop left it,
  with the exception if one was thrown.
\<close>

function entityUpdate_loop ::
  "(string \<Rightarrow> jsval \<Rightarrow> entity \<Rightarrow> entity) \<Rightarrow> nat \<Rightarrow> jsval list \<Rightarrow> nat \<Rightarrow> entity
     \<Rightarrow> js_error option \<times> entity" where
  "entityUpdate_loop assign startIndex data i e =
     (if i < length data then
        (let property = data_at data i;
             inc = (data_at data (i + 1) = JStr ''inc'');
             updateValue =
               (if inc
                then JNum (num_add (js_parseFloat (attr_get e property))
                                   (js_parseFloat (data_at data (i + 2))))
                else data_at data (i + 1));
             j = (if inc then i + 1 else i)
         in if startIndex = 2 then
              (case method_toString updateValue of
                 Inl err \<Rightarrow> (Some err, e)
               | Inr str \<Rightarrow>
                   entityUpdate_loop assign startIndex data (j + 2)
                     (e\<lparr>entity_attributes := (entity_attributes e)(property \<mapsto> JStr str)\<rparr>))
            else
              entityUpdate_loop assign startIndex data (j + 2)
                (assign (js_ToString property) updateValue e))
      else (None, e))"
  by pat_completeness auto
termination
  by (relation "measure (\<lambda>(assign, startIndex, data, i, e). length data - i)") auto

declare entityUpdate_loop.simps [simp del]

definition onEntityUpdate ::
  "(string \<Rightarrow> jsval \<Rightarrow> entity \<Rightarrow> entity) \<Rightarrow> room \<Rightarrow> string \<Rightarrow> jsval list \<Rightarrow> outcome" where
  "onEntityUpdate assign s clientID data =
     (if networkedEntities s (js_ToString (data_at data 0)) = None then Completed s
      else
        (case get_raw (networkedEntities s) (data_at data 0) of
           None \<Rightarrow> Threw TypeError s
         | Some stateToUpdate \<Rightarrow>
             let startIndex = (if data_at data 1 = JStr ''attributes'' then 2 else 1);
                 key = js_ToString (data_at data 0)
             in (case entityUpdate_loop assign startIndex data startIndex stateToUpdate of
                   (Some err, e) \<Rightarrow>
                     Threw err (s\<lparr>networkedEntities := (networkedEntities s)(key \<mapsto> e)\<rparr>)
                 | (None, e) \<Rightarrow>
                     Completed (s\<lparr>networkedEntities :=
                       (networkedEntities s)(key \<mapsto> e\<lparr>entity_timestamp := Some (now s)\<rparr>)\<rparr>))))"

text \<open>The "entityUpdate" message callback installed by \<^verbatim>\<open>onCreate\<close>.\<close>

definition on_entityUpdate_message ::
  "(string \<Rightarrow> jsval \<Rightarrow> entity \<Rightarrow> entity) \<Rightarrow> room \<Rightarrow> client \<Rightarrow> jsval list \<Rightarrow> outcome" where
  "on_entityUpdate_message assign s c entityUpdateArray =
     (if networkedEntities s (js_ToString (data_at entityUpdateArray 0)) = None then Completed s
      else onEntityUpdate assign s (client_id c) entityUpdateArray)"



subsection \<open>removeEntity and createEntity\<close>

definition on_removeEntity_message :: "room \<Rightarrow> client \<Rightarrow> jsval \<Rightarrow> outcome" where
  "on_removeEntity_message s c removeId =
     (case removeId of
        JStr k \<Rightarrow>
          if networkedEntities s k \<noteq> None
          then Completed (s\<lparr>networkedEntities := (networkedEntities s)(k := None)\<rparr>)
          else Completed s
      | _ \<Rightarrow> Completed s)"

text \<open>
  Modelled from the spec: \<^verbatim>\<open>new ColyseusNetworkedEntity()\<close>, whose class is declared in
  \<^verbatim>\<open>./schema/ColyseusRoomState\<close>.  The spec's data model lists the fields and gives no
  initial values besides an empty attribute map, so every other field starts unassigned;
  \<^verbatim>\<open>assign\<close> then sets \<^verbatim>\<open>id\<close>, \<^verbatim>\<open>ownerId\<close> and \<^verbatim>\<open>timestamp\<close>.
\<close>

definition new_ColyseusNetworkedEntity :: "string \<Rightarrow> string \<Rightarrow> jsnum \<Rightarrow> entity" where
  "new_ColyseusNetworkedEntity i owner t =
     \<lparr>entity_id = i, ownerId = owner, creationId = None,
      xPos = None, yPos = None, zPos = None,
      xRot = None, yRot = None, zRot = None, wRot = None,
      entity_timestamp = Some t, entity_attributes = Map.empty\<rparr>"

record creation_message =
  msg_creationId :: jsval
  msg_attributes :: "(string \<times> payload) list option"

text \<open>\<^verbatim>\<open>parseFloat(creationMessage.attributes[key][i])\<close>\<close>

definition parse_component :: "payload \<Rightarrow> nat \<Rightarrow> js_error + jsnum" where
  "parse_component v i =
     (case payload_index v i of Inl err \<Rightarrow> Inl err | Inr x \<Rightarrow> Inr (js_parseFloat x))"

text \<open>One iteration of \<^verbatim>\<open>for (let key in creationMessage.attributes)\<close>.\<close>

definition creation_attribute :: "entity \<Rightarrow> string \<times> payload \<Rightarrow> js_error + entity" where
  "creation_attribute e kv =
     (let key = fst kv; v = snd kv
      in if key = ''creationPos'' then
           (case parse_component v 0 of Inl err \<Rightarrow> Inl err | Inr x \<Rightarrow>
            case parse_component v 1 of Inl err \<Rightarrow> Inl err | Inr y \<Rightarrow>
            case parse_component v 2 of Inl err \<Rightarrow> Inl err | Inr z \<Rightarrow>
              Inr (e\<lparr>xPos := Some x, yPos := Some y, zPos := Some z\<rparr>))
         else if key = ''creationRot'' then
           (case parse_component v 0 of Inl err \<Rightarrow> Inl err | Inr x \<Rightarrow>
            case parse_component v 1 of Inl err \<Rightarrow> Inl err | Inr y \<Rightarrow>
            case parse_component v 2 of Inl err \<Rightarrow> Inl err | Inr z \<Rightarrow>
            case parse_component v 3 of Inl err \<Rightarrow> Inl err | Inr w \<Rightarrow>
              Inr (e\<lparr>xRot := Some x, yRot := Some y, zRot := Some z, wRot := Some w\<rparr>))
         else
           (case payload_toString v of
              Inl err \<Rightarrow> Inl err
            | Inr str \<Rightarrow>
                Inr (e\<lparr>entity_attributes := (entity_attributes e)(JStr key \<mapsto> JStr str)\<rparr>)))"

fun creation_attributes :: "entity \<Rightarrow> (string \<times> payload) list \<Rightarrow> js_error + entity" where
  "creation_attributes e [] = Inr e"
| "creation_attributes e (kv # kvs) =
     (case creation_attribute e kv of
        Inl err \<Rightarrow> Inl err
      | Inr e' \<Rightarrow> creation_attributes e' kvs)"

text \<open>
  The "createEntity" message callback.  \<open>entityViewID\<close> is the result of
  \<^verbatim>\<open>generateId()\<close>.  The new entity is local until it is stored, so an exception
  leaves the room as it was.
\<close>

definition on_createEntity_message ::
  "room \<Rightarrow> client \<Rightarrow> creation_message option \<Rightarrow> string \<Rightarrow> outcome" where
  "on_createEntity_message s c creationMessage entityViewID =
     (case creationMessage of
        None \<Rightarrow> Threw TypeError s
      | Some msg \<Rightarrow>
          let e0 = new_ColyseusNetworkedEntity entityViewID (client_id c) (serverTime s);
              e1 = (if is_nullish (msg_creationId msg) then e0
                    else e0\<lparr>creationId := Some (msg_creationId msg)\<rparr>);
              e2 = e1\<lparr>entity_timestamp := Some (now s)\<rparr>
          in (case creation_attributes e2
                     (case msg_attributes msg of None \<Rightarrow> [] | Some kvs \<Rightarrow> kvs) of
                Inl err \<Rightarrow> Threw err s
              | Inr newEntity \<Rightarrow>
                  Completed (s\<lparr>
                    networkedEntities := (networkedEntities s)(entityViewID \<mapsto> newEntity),
                    clientEntities :=
                      (case clientEntities s (client_id c) of
                         Some ids \<Rightarrow> (clientEntities s)(client_id c \<mapsto> ids @ [entityViewID])
                       | None \<Rightarrow> (clientEntities s)(client_id c \<mapsto> [entityViewID]))\<rparr>)))"

subsection \<open>onJoin\<close>

text \<open>
  Modelled from the spec: \<^verbatim>\<open>new ColyseusNetworkedUser()\<close>, whose class is declared in
  \<^verbatim>\<open>./schema/ColyseusRoomState\<close>.  \<^verbatim>\<open>onJoin\<close> assigns \<^verbatim>\<open>id\<close>, \<^verbatim>\<open>sessionId\<close> and the
  profile fields and never \<^verbatim>\<open>connected\<close>; the spec says that a newly constructed User
  has \<open>connected=true\<close>, a timestamp that records the last attribute mutation, and an
  attribute map.
\<close>

definition new_ColyseusNetworkedUser :: "string \<Rightarrow> string \<Rightarrow> profile \<Rightarrow> user" where
  "new_ColyseusNetworkedUser i sid p =
     \<lparr>user_id = i, user_sessionId = sid, user_profile = p, connected = True,
      user_timestamp = None, user_attributes = Map.empty\<rparr>"

text \<open>
  The scan of \<^verbatim>\<open>this.state.networkedUsers.toJSON()\<close>: some stored user has the account
  of the new one (\<^verbatim>\<open>===\<close>; two omitted accounts are both undefined, hence equal).
\<close>

definition account_taken :: "room \<Rightarrow> string option \<Rightarrow> bool" where
  "account_taken s a = (\<exists>u \<in> ran (networkedUsers s). account (user_profile u) = a)"

definition onJoin :: "room \<Rightarrow> client \<Rightarrow> profile \<Rightarrow> outcome" where
  "onJoin s c options =
     (let newNetworkedUser =
            new_ColyseusNetworkedUser (client_id c) (client_sessionId c) options
      in if account_taken s (account (user_profile newNetworkedUser))
         then Completed (s\<lparr>effects := effects s @ [SendWalletNotPass c]\<rparr>)
         else Completed (s\<lparr>
                networkedUsers := (networkedUsers s)(client_sessionId c \<mapsto> newNetworkedUser),
                effects := effects s @ [SendOnJoin c newNetworkedUser]\<rparr>))"

subsection \<open>setAttribute\<close>

record attribute_message =
  entityId :: jsval
  userId :: jsval
  attributesToSet :: "(string \<times> jsval) list option"

text \<open>
  The loop over \<^verbatim>\<open>Object.keys(attributeUpdateMessage.attributesToSet)\<close>: each value is
  stored as it came.
\<close>

definition set_all :: "(jsval \<rightharpoonup> jsval) \<Rightarrow> (string \<times> jsval) list \<Rightarrow> (jsval \<rightharpoonup> jsval)" where
  "set_all m kvs = foldl (\<lambda>m kv. m(JStr (fst kv) \<mapsto> snd kv)) m kvs"

definition setAttribute :: "room \<Rightarrow> client \<Rightarrow> attribute_message option \<Rightarrow> outcome" where
  "setAttribute s c attributeUpdateMessage =
     (case attributeUpdateMessage of
        None \<Rightarrow> Completed s
      | Some msg \<Rightarrow>
          if is_nullish (entityId msg) \<and> is_nullish (userId msg) then Completed s
          else
            (case attributesToSet msg of
               None \<Rightarrow> Completed s
             | Some kvs \<Rightarrow>
                 if truthy (entityId msg) then
                   (case networkedEntities s (js_ToString (entityId msg)) of
                      None \<Rightarrow> Completed s
                    | Some e \<Rightarrow>
                        Completed (s\<lparr>networkedEntities :=
                          (networkedEntities s)(js_ToString (entityId msg) \<mapsto>
                             e\<lparr>entity_timestamp := Some (now s),
                               entity_attributes := set_all (entity_attributes e) kvs\<rparr>)\<rparr>))
                 else if truthy (userId msg) then
                   (case networkedUsers s (js_ToString (userId msg)) of
                      None \<Rightarrow>
                        Completed (s\<lparr>effects :=
                          effects s @ [LogNoNetworkedUser (js_ToString (userId msg))]\<rparr>)
                    | Some u \<Rightarrow>
                        Completed (s\<lparr>networkedUsers :=
                          (networkedUsers s)(js_ToString (userId msg) \<mapsto>
                             u\<lparr>user_timestamp := Some (now s),
                               user_attributes := set_all (user_attributes u) kvs\<rparr>)\<rparr>))
                 else Completed s))"

subsection \<open>onLeave\<close>

text \<open>
  \<^verbatim>\<open>onLeave\<close> is an async function: it runs up to \<^verbatim>\<open>await this.allowReconnection(client, 10)\<close>,
  and its continuation runs later, on the room as the other handlers have left it by
  then.  \<open>onLeave\<close> is the part before the await, \<open>onLeave_resume\<close> the part after it;
  how the awaited promise settles is the input \<open>reconnection\<close>.

  \<open>customMethodController\<close> is the loaded custom logic module (\<open>None\<close> for
  \<^verbatim>\<open>null\<close>), given as what its \<^verbatim>\<open>ProcessUserLeft(this)\<close> does to the room: the modules
  live in \<^verbatim>\<open>./customLogic/\<close>.
\<close>

datatype reconnection = Reconnected client | Rejected

datatype leaving = Finished outcome | Awaiting room

text \<open>The catch block of \<^verbatim>\<open>onLeave\<close>.\<close>

definition remove_user_and_entities ::
  "(room \<Rightarrow> outcome) option \<Rightarrow> room \<Rightarrow> client \<Rightarrow> outcome" where
  "remove_user_and_entities customMethodController s c =
     (let s1 = s\<lparr>networkedUsers := (networkedUsers s)(client_sessionId c := None)\<rparr>
      in case clientEntities s1 (client_id c) of
           Some allClientEntities \<Rightarrow>
             let s2 = s1\<lparr>networkedEntities :=
                        foldl (\<lambda>m element. m(element := None)) (networkedEntities s1)
                          allClientEntities\<rparr>;
                 s3 = s2\<lparr>clientEntities := (clientEntities s2)(client_id c := None)\<rparr>
             in (case customMethodController of
                   Some ProcessUserLeft \<Rightarrow> ProcessUserLeft s3
                 | None \<Rightarrow> Completed s3)
         | None \<Rightarrow>
             Completed (s1\<lparr>effects := effects s1 @ [LogNoClientEntities (client_id c)]\<rparr>))"

definition mark_disconnected :: "room \<Rightarrow> client \<Rightarrow> room" where
  "mark_disconnected s c =
     (case networkedUsers s (client_sessionId c) of
        Some networkedUser \<Rightarrow>
          s\<lparr>networkedUsers :=
              (networkedUsers s)(client_sessionId c \<mapsto> networkedUser\<lparr>connected := False\<rparr>)\<rparr>
      | None \<Rightarrow> s)"

definition onLeave :: "(room \<Rightarrow> outcome) option \<Rightarrow> room \<Rightarrow> client \<Rightarrow> bool \<Rightarrow> leaving" where
  "onLeave customMethodController s c consented =
     (let s1 = mark_disconnected s c
      in if consented then Finished (remove_user_and_entities customMethodController s1 c)
         else Awaiting (s1\<lparr>effects := effects s1 @ [AllowReconnection c 10]\<rparr>))"

definition onLeave_resume ::
  "(room \<Rightarrow> outcome) option \<Rightarrow> room \<Rightarrow> client \<Rightarrow> reconnection \<Rightarrow> outcome" where
  "onLeave_resume customMethodController s c r =
     (case r of
        Reconnected newClient \<Rightarrow> Completed s
      | Rejected \<Rightarrow> remove_user_and_entities customMethodController s c)"

subsection \<open>The simulation interval\<close>

text \<open>
  The callback of \<^verbatim>\<open>setSimulationInterval\<close>: the server time accumulates the elapsed
  time, then \<^verbatim>\<open>ProcessLogic(this, dt)\<close> of the loaded module runs inside try/catch.
\<close>

definition simulation_interval ::
  "(room \<Rightarrow> jsnum \<Rightarrow> outcome) option \<Rightarrow> room \<Rightarrow> jsnum \<Rightarrow> room" where
  "simulation_interval customLogic s dt =
     (let s1 = s\<lparr>serverTime := num_add (serverTime s) dt\<rparr>
      in case customLogic of
           Some ProcessLogic \<Rightarrow>
             (case ProcessLogic s1 dt of
                Completed s2 \<Rightarrow> s2
              | Threw err s2 \<Rightarrow> s2\<lparr>effects := effects s2 @ [LogRoomLogicError]\<rparr>)
         | None \<Rightarrow> s1)"

subsection \<open>The room after onCreate, and the operations as commands\<close>

text \<open>
  \<^verbatim>\<open>onCreate\<close> sets a new \<^verbatim>\<open>ColyseusRoomState\<close>; \<^verbatim>\<open>clientEntities\<close> is a new Map and
  \<^verbatim>\<open>serverTime\<close> is 0.
\<close>

definition created_room :: room where
  "created_room =
     \<lparr>networkedEntities = Map.empty, networkedUsers = Map.empty,
      clientEntities = Map.empty, serverTime = Fin 0 0, effects = []\<rparr>"

datatype command =
    CreateEntity client "creation_message option" string
  | RemoveEntity client jsval
  | EntityUpdate client "jsval list"
  | SetAttribute client "attribute_message option"
  | Leave client bool
  | LeaveResume client reconnection

text \<open>The room after a command, whether its handler completed or threw.\<close>

fun step ::
  "(string \<Rightarrow> jsval \<Rightarrow> entity \<Rightarrow> entity) \<Rightarrow> (room \<Rightarrow> outcome) option \<Rightarrow> room \<Rightarrow> command
     \<Rightarrow> room" where
  "step assign ctrl s (CreateEntity c m k) = state_of (on_createEntity_message s c m k)"
| "step assign ctrl s (RemoveEntity c k) = state_of (on_removeEntity_message s c k)"
| "step assign ctrl s (EntityUpdate c data) = state_of (on_entityUpdate_message assign s c data)"
| "step assign ctrl s (SetAttribute c m) = state_of (setAttribute s c m)"
| "step assign ctrl s (Leave c consented) =
     (case onLeave ctrl s c consented of Finished out \<Rightarrow> state_of out | Awaiting s' \<Rightarrow> s')"
| "step assign ctrl s (LeaveResume c r) = state_of (onLeave_resume ctrl s c r)"

section \<open>Properties of the room state\<close>

text \<open>
  The Ownership Index (\<^verbatim>\<open>clientEntities\<close>) as the spec describes it: every listed id
  names an entity of the collection whose \<^verbatim>\<open>ownerId\<close> is the connection it is listed
  under.
\<close>

definition index_consistent :: "room \<Rightarrow> bool" where
  "index_consistent s =
     (\<forall>c ids. clientEntities s c = Some ids \<longrightarrow>
        (\<forall>k \<in> set ids. \<exists>e. networkedEntities s k = Some e \<and> ownerId e = c))"

text \<open>The same for the listed ids that are still in the collection.\<close>

definition index_owner_consistent :: "room \<Rightarrow> bool" where
  "index_owner_consistent s =
     (\<forall>c ids k e. clientEntities s c = Some ids \<longrightarrow> k \<in> set ids \<longrightarrow>
        networkedEntities s k = Some e \<longrightarrow> ownerId e = c)"




text \<open>At most one stored user per account value.\<close>

definition accounts_unique :: "room \<Rightarrow> bool" where
  "accounts_unique s =
     (\<forall>k k' u u'. networkedUsers s k = Some u \<longrightarrow> networkedUsers s k' = Some u' \<longrightarrow>
        account (user_profile u) = account (user_profile u') \<longrightarrow> k = k')"

subsection \<open>Concrete clients, payloads and rooms\<close>

definition alice :: client where
  "alice = \<lparr>client_id = ''c1'', client_sessionId = ''s1''\<rparr>"

definition bob :: client where
  "bob = \<lparr>client_id = ''c2'', client_sessionId = ''s2''\<rparr>"

definition plain_profile :: "string option \<Rightarrow> profile" where
  "plain_profile a =
     \<lparr>account = a, userName = JStr ''player'',
      headMat = JUndefined, headColor = JUndefined, hairMat = JUndefined,
      hairColor = JUndefined, clothMat = JUndefined, clothColor = JUndefined,
      shoeMat = JUndefined, shoeColor = JUndefined, glassMat = JUndefined,
      glassColor = JUndefined, maskMat = JUndefined, maskColor = JUndefined\<rparr>"

text \<open>Alice has joined with account \<open>A\<close> and created the entity \<open>e1\<close> with \<open>score = 5\<close>.\<close>

definition score_message :: creation_message where
  "score_message =
     \<lparr>msg_creationId = JUndefined, msg_attributes = Some [(''score'', Val (JStr ''5''))]\<rparr>"

definition room_with_alice :: room where
  "room_with_alice = state_of (onJoin created_room alice (plain_profile (Some ''A'')))"

definition room_with_entity :: room where
  "room_with_entity =
     state_of (on_createEntity_message room_with_alice alice (Some score_message) ''e1'')"

definition room_with_zero :: room where
  "room_with_zero =
     state_of (on_createEntity_message room_with_alice alice (Some score_message) ''0'')"



definition zero_message :: attribute_message where
  "zero_message =
     \<lparr>entityId = JNum (Fin 0 0), userId = JStr ''s1'',
      attributesToSet = Some [(''hp'', JStr ''9'')]\<rparr>"

text \<open>A loaded module whose \<^verbatim>\<open>ProcessUserLeft\<close> throws as soon as it is called.\<close>

definition faulting_hook :: "room \<Rightarrow> outcome" where
  "faulting_hook r = Threw TypeError r"

text \<open>The room while Alice's non-consented leave awaits her reconnection.\<close>

definition room_alice_away :: room where
  "room_alice_away =
     (case onLeave None room_with_entity alice False of
        Awaiting s \<Rightarrow> s
      | Finished out \<Rightarrow> state_of out)"

text \<open>A direct-field write that changes nothing, for the concrete runs.\<close>

definition ignore_field :: "string \<Rightarrow> jsval \<Rightarrow> entity \<Rightarrow> entity" where
  "ignore_field p v e = e"

section \<open>Printing a number and parsing it back\<close>

text \<open>
  \<^verbatim>\<open>parseFloat(x.toString())\<close> is \<open>x\<close> for every number in canonical form: the digits
  that Number::toString lays out, in each of its four layouts, are the digits that
  parseFloat reads.
\<close>

lemma is_digit_digit_char: "d < 10 \<Longrightarrow> is_digit (digit_char d)"
  by (simp add: is_digit_def digit_char_def)

lemma digit_val_digit_char: "d < 10 \<Longrightarrow> digit_val (digit_char d) = d"
  by (simp add: digit_val_def digit_char_def)

lemma not_digit_chars:
  "\<not> is_digit (CHR ''.'')" "\<not> is_digit (CHR ''e'')" "\<not> is_digit (CHR ''+'')"
  "\<not> is_digit (CHR ''-'')" "\<not> is_digit (CHR ''I'')" "\<not> is_digit (CHR ''N'')"
  "is_digit (CHR ''0'')" "digit_val (CHR ''0'') = 0"
  by (simp_all add: is_digit_def digit_val_def)

lemma is_digit_not_ws: "is_digit c \<Longrightarrow> \<not> is_ws c"
  by (auto simp: is_digit_def is_ws_def)

lemma is_digit_neq:
  "is_digit c \<Longrightarrow> c \<noteq> CHR ''-'' \<and> c \<noteq> CHR ''+'' \<and> c \<noteq> CHR ''.'' \<and> c \<noteq> CHR ''I''
     \<and> c \<noteq> CHR ''e'' \<and> c \<noteq> CHR ''E''"
  by (auto simp: is_digit_def)

lemma digits_of_digits: "\<forall>c \<in> set (digits_of n). is_digit c"
proof (induction n rule: digits_of.induct)
  case (1 n)
  then show ?case
    by (subst digits_of.simps) (auto simp: is_digit_digit_char)
qed

lemma digits_of_nonempty: "digits_of n \<noteq> []"
  by (subst digits_of.simps) simp

lemma digits_val_snoc: "digits_val (ds @ [c]) = 10 * digits_val ds + digit_val c"
  by (simp add: digits_val_def)

lemma digits_val_digits_of: "digits_val (digits_of n) = n"
proof (induction n rule: digits_of.induct)
  case (1 n)
  show ?case
  proof (cases "n < 10")
    case True
    then show ?thesis
      by (subst digits_of.simps) (simp add: digits_val_def digit_val_digit_char)
  next
    case False
    with 1 show ?thesis
      by (subst digits_of.simps) (simp add: digits_val_snoc digit_val_digit_char)
  qed
qed

lemma digits_val_append:
  "digits_val (xs @ ys) = digits_val xs * 10 ^ length ys + digits_val ys"
proof (induction ys rule: rev_induct)
  case Nil
  then show ?case by (simp add: digits_val_def)
next
  case (snoc y ys)
  have "digits_val (xs @ ys @ [y]) = 10 * digits_val (xs @ ys) + digit_val y"
    using digits_val_snoc[of "xs @ ys" y] by simp
  with snoc show ?case
    by (simp add: digits_val_snoc algebra_simps)
qed

lemma digits_val_zeros: "digits_val (replicate j (CHR ''0'')) = 0"
  by (induction j) (simp_all add: digits_val_def not_digit_chars)

lemma norm_dec_canonical: "m mod 10 \<noteq> 0 \<Longrightarrow> norm_dec m x = Fin m x"
  by (subst norm_dec.simps) auto

lemma norm_dec_zero: "norm_dec 0 x = Fin 0 0"
  by (subst norm_dec.simps) simp

lemma norm_dec_times_ten: "norm_dec (m * 10) x = norm_dec m (x + 1)"
  by (subst norm_dec.simps) (simp add: norm_dec_zero)

lemma norm_dec_power: "norm_dec (m * 10 ^ j) x = norm_dec m (x + int j)"
proof (induction j arbitrary: x)
  case 0
  then show ?case by simp
next
  case (Suc j)
  have "m * 10 ^ Suc j = m * 10 ^ j * 10"
    by simp
  then have "norm_dec (m * 10 ^ Suc j) x = norm_dec (m * 10 ^ j * 10) x"
    by (rule arg_cong)
  also have "\<dots> = norm_dec (m * 10 ^ j) (x + 1)"
    by (rule norm_dec_times_ten)
  also have "\<dots> = norm_dec m (x + 1 + int j)"
    by (rule Suc.IH)
  also have "x + 1 + int j = x + int (Suc j)"
    by simp
  finally show ?case .
qed

lemma norm_dec_uminus_power:
  "norm_dec (- (m * 10 ^ j)) x = norm_dec (- m) (x + int j)"
  using norm_dec_power[of "- m" j x] by simp

lemma parse_exponent_empty: "parse_exponent [] = 0"
  by (simp add: parse_exponent_def)

lemma parse_exponent_printed:
  "parse_exponent (''e'' @ (if 0 \<le> y then ''+'' else ''-'') @ digits_of (nat \<bar>y\<bar>)) = y"
  using digits_of_digits[of "nat \<bar>y\<bar>"]
  by (auto simp: parse_exponent_def digits_val_digits_of takeWhile_eq_all_conv[THEN iffD2])


lemma not_Infinity:
  assumes "a \<noteq> []" and "\<forall>c \<in> set a. is_digit c"
  shows "\<not> is_prefix ''Infinity'' (a @ r)"
proof -
  from assms obtain c t where a: "a = c # t" and c: "is_digit c"
    by (cases a) auto
  then have "c \<noteq> CHR ''I''"
    using is_digit_neq by blast
  with a show ?thesis
    by (simp add: is_prefix_def)
qed

lemma scan_digits:
  assumes "\<forall>c \<in> set a. is_digit c" and "r = [] \<or> \<not> is_digit (hd r)"
  shows "takeWhile is_digit (a @ r) = a" and "dropWhile is_digit (a @ r) = r"
  using assms by (cases r; simp)+

lemma parse_unsigned_point:
  assumes "a \<noteq> []" and "\<forall>c \<in> set a. is_digit c" and "\<forall>c \<in> set b. is_digit c"
    and "r = [] \<or> hd r = CHR ''e''"
  shows "parse_unsigned neg (a @ ''.'' @ b @ r) =
           norm_dec (if neg then - int (digits_val (a @ b)) else int (digits_val (a @ b)))
             (parse_exponent r - int (length b))"
proof -
  have r: "r = [] \<or> \<not> is_digit (hd r)"
    using assms(4) not_digit_chars(2) by auto
  have dot: "''.'' @ b @ r = [] \<or> \<not> is_digit (hd (''.'' @ b @ r))"
    by (simp add: not_digit_chars)
  have a1: "takeWhile is_digit (a @ ''.'' @ b @ r) = a"
    and a2: "dropWhile is_digit (a @ ''.'' @ b @ r) = ''.'' @ b @ r"
    using scan_digits[OF assms(2) dot] by simp_all
  have b1: "takeWhile is_digit (b @ r) = b" and b2: "dropWhile is_digit (b @ r) = r"
    using scan_digits[OF assms(3) r] by simp_all
  show ?thesis
    unfolding parse_unsigned_def
    using not_Infinity[OF assms(1,2), of "''.'' @ b @ r"] assms(1) a1 a2 b1 b2
    by (simp add: Let_def)
qed

lemma parse_unsigned_plain:
  assumes "a \<noteq> []" and "\<forall>c \<in> set a. is_digit c" and "r = [] \<or> hd r = CHR ''e''"
  shows "parse_unsigned neg (a @ r) =
           norm_dec (if neg then - int (digits_val a) else int (digits_val a))
             (parse_exponent r)"
proof -
  have r: "r = [] \<or> \<not> is_digit (hd r)"
    using assms(3) not_digit_chars(2) by auto
  have a1: "takeWhile is_digit (a @ r) = a" and a2: "dropWhile is_digit (a @ r) = r"
    using scan_digits[OF assms(2) r] by simp_all
  have e: "r \<noteq> [] \<Longrightarrow> hd r \<noteq> CHR ''.''"
    using assms(3) by auto
  show ?thesis
    unfolding parse_unsigned_def a1 a2 Let_def
    using not_Infinity[OF assms(1,2), of r] assms(1) e
    by (cases r) simp_all
qed


lemma norm_dec_scaled:
  "norm_dec (if neg then - int (v * 10 ^ j) else int (v * 10 ^ j)) x =
   norm_dec (if neg then - int v else int v) (x + int j)"
  using norm_dec_power[of "int v" j x] norm_dec_uminus_power[of "int v" j x]
  by simp

lemma parse_unsigned_layout:
  assumes "ds \<noteq> []" and "\<forall>c \<in> set ds. is_digit c"
  shows "parse_unsigned neg (layout ds x) =
           norm_dec (if neg then - int (digits_val ds) else int (digits_val ds)) x"
proof -
  let ?k = "int (length ds)"
  let ?n = "?k + x"
  have k: "0 < ?k"
    using assms(1) by simp
  consider (whole) "?k \<le> ?n" "?n \<le> 21"
    | (point) "\<not> (?k \<le> ?n \<and> ?n \<le> 21)" "0 < ?n" "?n \<le> 21"
    | (small) "\<not> (?k \<le> ?n \<and> ?n \<le> 21)" "\<not> (0 < ?n \<and> ?n \<le> 21)" "-6 < ?n" "?n \<le> 0"
    | (expo) "\<not> (?k \<le> ?n \<and> ?n \<le> 21)" "\<not> (0 < ?n \<and> ?n \<le> 21)" "\<not> (-6 < ?n \<and> ?n \<le> 0)"
    by blast
  then show ?thesis
  proof cases
    case whole
    let ?z = "replicate (nat x) (CHR ''0'')"
    have lay: "layout ds x = (ds @ ?z) @ []"
      using whole by (simp add: layout_def Let_def)
    have dig: "\<forall>c \<in> set (ds @ ?z). is_digit c"
      using assms(2) by (auto simp: not_digit_chars)
    have val: "digits_val (ds @ ?z) = digits_val ds * 10 ^ nat x"
      by (simp add: digits_val_append digits_val_zeros)
    have "parse_unsigned neg (layout ds x) =
            norm_dec (if neg then - int (digits_val ds * 10 ^ nat x)
                      else int (digits_val ds * 10 ^ nat x)) 0"
      unfolding lay
      using parse_unsigned_plain[of "ds @ ?z" "[]" neg] assms(1) dig
      by (simp only: val parse_exponent_empty) simp
    also have "\<dots> = norm_dec (if neg then - int (digits_val ds) else int (digits_val ds))
                        (0 + int (nat x))"
      by (rule norm_dec_scaled)
    finally show ?thesis
      using whole by simp
  next
    case point
    let ?a = "take (nat ?n) ds" and ?b = "drop (nat ?n) ds"
    have lay: "layout ds x = ?a @ ''.'' @ ?b @ []"
      using point by (simp add: layout_def Let_def)
    have a: "?a \<noteq> []" using point(2) assms(1) by simp
    have da: "\<forall>c \<in> set ?a. is_digit c" and db: "\<forall>c \<in> set ?b. is_digit c"
      using assms(2) by (auto dest: in_set_takeD in_set_dropD)
    have len: "int (length ?b) = - x"
      using point by auto
    have "parse_unsigned neg (?a @ ''.'' @ ?b @ []) =
            norm_dec (if neg then - int (digits_val (?a @ ?b)) else int (digits_val (?a @ ?b)))
              (parse_exponent [] - int (length ?b))"
      by (rule parse_unsigned_point[OF a da db]) simp
    then show ?thesis
      unfolding lay len append_take_drop_id by (simp add: parse_exponent_empty)
  next
    case small
    let ?z = "replicate (nat (- ?n)) (CHR ''0'')"
    have lay: "layout ds x = ''0'' @ ''.'' @ (?z @ ds) @ []"
      using small by (simp add: layout_def Let_def)
    have db: "\<forall>c \<in> set (?z @ ds). is_digit c"
      using assms(2) by (auto simp: not_digit_chars)
    have val: "digits_val (''0'' @ ?z @ ds) = digits_val ds"
      using digits_val_append[of "''0''" "?z @ ds"] digits_val_append[of ?z ds]
      by (simp add: digits_val_zeros) (simp add: digits_val_def not_digit_chars)
    have len: "int (length (?z @ ds)) = - x"
      using small by auto
    have "parse_unsigned neg (''0'' @ ''.'' @ (?z @ ds) @ []) =
            norm_dec (if neg then - int (digits_val (''0'' @ ?z @ ds))
                      else int (digits_val (''0'' @ ?z @ ds)))
              (parse_exponent [] - int (length (?z @ ds)))"
      by (rule parse_unsigned_point) (use db in \<open>simp_all add: not_digit_chars\<close>)
    then show ?thesis
      unfolding lay val len by (simp add: parse_exponent_empty)
  next
    case expo
    let ?e = "''e'' @ (if 0 \<le> ?n - 1 then ''+'' else ''-'') @ digits_of (nat \<bar>?n - 1\<bar>)"
    have e: "?e = [] \<or> hd ?e = CHR ''e''"
      by simp
    have pe: "parse_exponent ?e = ?n - 1"
      by (rule parse_exponent_printed)
    have lay0: "layout ds x = (if ?k = 1 then ds else take 1 ds @ ''.'' @ drop 1 ds) @ ?e"
      by (simp only: layout_def Let_def expo if_False)
    show ?thesis
    proof (cases "?k = 1")
      case True
      have lay: "layout ds x = ds @ ?e"
        unfolding lay0 using True by simp
      have "parse_unsigned neg (ds @ ?e) =
              norm_dec (if neg then - int (digits_val ds) else int (digits_val ds))
                (parse_exponent ?e)"
        by (rule parse_unsigned_plain[OF assms e])
      then show ?thesis
        unfolding lay pe using True by simp
    next
      case False
      let ?a = "take 1 ds" and ?b = "drop 1 ds"
      have lay: "layout ds x = ?a @ ''.'' @ ?b @ ?e"
        unfolding lay0 using False by simp
      have a: "?a \<noteq> []" using assms(1) by simp
      have da: "\<forall>c \<in> set ?a. is_digit c" and db: "\<forall>c \<in> set ?b. is_digit c"
        using assms(2) by (auto dest: in_set_takeD in_set_dropD)
      have len: "int (length ?b) = ?k - 1"
        using assms(1) by (cases ds) auto
      have "parse_unsigned neg (?a @ ''.'' @ ?b @ ?e) =
              norm_dec (if neg then - int (digits_val (?a @ ?b)) else int (digits_val (?a @ ?b)))
                (parse_exponent ?e - int (length ?b))"
        by (rule parse_unsigned_point[OF a da db e])
      then show ?thesis
        unfolding lay pe len by simp
    qed
  qed
qed


lemma layout_starts_with_digit:
  assumes "ds \<noteq> []" and "\<forall>c \<in> set ds. is_digit c"
  shows "\<exists>c t. layout ds x = c # t \<and> is_digit c"
proof -
  from assms obtain d t where ds: "ds = d # t" and d: "is_digit d"
    by (cases ds) auto
  have "layout ds x \<noteq> [] \<and> (hd (layout ds x) = d \<or> hd (layout ds x) = CHR ''0'')"
    unfolding layout_def Let_def ds
    by (auto simp: hd_append take_Cons' nat_le_iff)
  with d show ?thesis
    by (cases "layout ds x") (auto simp: not_digit_chars)
qed

lemma parseFloat_str_digit:
  "is_digit c \<Longrightarrow> parseFloat_str (c # t) = parse_unsigned False (c # t)"
  using is_digit_not_ws[of c] is_digit_neq[of c]
  by (simp add: parseFloat_str_def)

lemma parseFloat_str_minus:
  "parseFloat_str (CHR ''-'' # t) = parse_unsigned True t"
  by (simp add: parseFloat_str_def is_ws_def)

lemma parseFloat_special:
  "parseFloat_str (num_toString NaN) = NaN"
  "parseFloat_str (num_toString PosInf) = PosInf"
  "parseFloat_str (num_toString NegInf) = NegInf"
  "parseFloat_str (num_toString (Fin 0 0)) = Fin 0 0"
  by code_simp+

lemma parseFloat_num_toString:
  assumes "canonical n"
  shows "parseFloat_str (num_toString n) = n"
proof (cases n)
  case NaN
  then show ?thesis by (simp only: parseFloat_special)
next
  case PosInf
  then show ?thesis by (simp only: parseFloat_special)
next
  case NegInf
  then show ?thesis by (simp only: parseFloat_special)
next
  case (Fin m x)
  show ?thesis
  proof (cases "m = 0")
    case True
    with assms Fin have "x = 0"
      by (simp add: canonical_def)
    with True Fin show ?thesis by (simp only: parseFloat_special)
  next
    case False
    with assms Fin have m10: "m mod 10 \<noteq> 0"
      by (simp add: canonical_def)
    let ?ds = "digits_of (nat \<bar>m\<bar>)"
    have ne: "?ds \<noteq> []" and dig: "\<forall>c \<in> set ?ds. is_digit c"
      by (rule digits_of_nonempty, rule digits_of_digits)
    have val: "int (digits_val ?ds) = \<bar>m\<bar>"
      by (simp add: digits_val_digits_of)
    obtain c t where lay: "layout ?ds x = c # t" and c: "is_digit c"
      using layout_starts_with_digit[OF ne dig] by blast
    show ?thesis
    proof (cases "m < 0")
      case True
      have "num_toString n = CHR ''-'' # layout ?ds x"
        using Fin True by (simp add: fin_toString_def)
      then have "parseFloat_str (num_toString n) = parse_unsigned True (layout ?ds x)"
        by (simp only: parseFloat_str_minus)
      also have "\<dots> = norm_dec (- \<bar>m\<bar>) x"
        using parse_unsigned_layout[OF ne dig, of True x] val by simp
      also have "\<dots> = Fin m x"
        using True m10 by (simp add: norm_dec_canonical)
      finally show ?thesis using Fin by simp
    next
      case pos: False
      have "num_toString n = layout ?ds x"
        using Fin pos False by (simp add: fin_toString_def)
      then have "parseFloat_str (num_toString n) = parse_unsigned False (layout ?ds x)"
        by (simp only: lay parseFloat_str_digit[OF c])
      also have "\<dots> = norm_dec \<bar>m\<bar> x"
        using parse_unsigned_layout[OF ne dig, of False x] val by simp
      also have "\<dots> = Fin m x"
        using pos m10 by (simp add: norm_dec_canonical)
      finally show ?thesis using Fin by simp
    qed
  qed
qed

lemma five_plus_three:
  "num_toString (num_add (parseFloat_str ''5'') (parseFloat_str ''3'')) = ''8''"
  by code_simp

text \<open>Parsing and addition yield numbers in canonical form.\<close>

lemma canonical_norm_dec: "canonical (norm_dec m x)"
proof (induction m x rule: norm_dec.induct)
  case (1 m x)
  then show ?case
    by (subst norm_dec.simps) (auto simp: canonical_def)
qed

lemma canonical_num_add: "canonical a \<Longrightarrow> canonical b \<Longrightarrow> canonical (num_add a b)"
  by (cases a; cases b) (simp_all add: canonical_norm_dec Let_def, simp_all add: canonical_def)

lemma canonical_parse_unsigned: "canonical (parse_unsigned neg r)"
  by (simp add: parse_unsigned_def Let_def canonical_norm_dec) (simp add: canonical_def)

lemma canonical_parseFloat_str: "canonical (parseFloat_str s)"
  by (simp add: parseFloat_str_def canonical_parse_unsigned split: list.splits)
     (simp add: canonical_def)

lemma canonical_simulation_interval:
  "canonical (serverTime s) \<Longrightarrow> canonical dt \<Longrightarrow>
     canonical (serverTime (simulation_interval None s dt))"
  by (simp add: simulation_interval_def canonical_num_add)

lemma now_canonical: "canonical (serverTime s) \<Longrightarrow> now s = serverTime s"
  by (simp add: now_def parseFloat_num_toString)


section \<open>Evaluating the concrete rooms\<close>

lemma now_created: "now created_room = Fin 0 0"
  unfolding now_def created_room_def by code_simp

text \<open>The room that \<^verbatim>\<open>onCreate\<close> leaves has the properties that the operations keep.\<close>

lemma created_room_properties:
  "index_consistent created_room" "index_owner_consistent created_room"
  "accounts_unique created_room" "canonical (serverTime created_room)"
  by (simp_all add: index_consistent_def index_owner_consistent_def accounts_unique_def
        canonical_def created_room_def)

lemma room_with_alice_eq:
  "room_with_alice =
     created_room\<lparr>
       networkedUsers :=
         [''s1'' \<mapsto> new_ColyseusNetworkedUser ''c1'' ''s1'' (plain_profile (Some ''A''))],
       effects :=
         [SendOnJoin alice (new_ColyseusNetworkedUser ''c1'' ''s1'' (plain_profile (Some ''A'')))]\<rparr>"
  by (simp add: room_with_alice_def onJoin_def account_taken_def created_room_def alice_def Let_def)

lemma now_alice: "now room_with_alice = Fin 0 0"
  by (simp add: room_with_alice_eq now_def now_created[unfolded now_def])

lemma room_with_entity_eq:
  "room_with_entity =
     room_with_alice\<lparr>
       networkedEntities :=
         [''e1'' \<mapsto> (new_ColyseusNetworkedEntity ''e1'' ''c1'' (Fin 0 0))
                      \<lparr>entity_attributes := [JStr ''score'' \<mapsto> JStr ''5'']\<rparr>],
       clientEntities := [''c1'' \<mapsto> [''e1'']]\<rparr>"
  by (simp add: room_with_entity_def on_createEntity_message_def score_message_def
        creation_attribute_def now_alice new_ColyseusNetworkedEntity_def Let_def
        room_with_alice_eq[symmetric])
     (simp add: room_with_alice_eq created_room_def alice_def)

lemma now_entity: "now room_with_entity = Fin 0 0"
  by (simp add: room_with_entity_eq now_def now_alice[unfolded now_def])

lemma room_with_zero_eq:
  "room_with_zero =
     room_with_alice\<lparr>
       networkedEntities :=
         [''0'' \<mapsto> (new_ColyseusNetworkedEntity ''0'' ''c1'' (Fin 0 0))
                     \<lparr>entity_attributes := [JStr ''score'' \<mapsto> JStr ''5'']\<rparr>],
       clientEntities := [''c1'' \<mapsto> [''0'']]\<rparr>"
  by (simp add: room_with_zero_def on_createEntity_message_def score_message_def
        creation_attribute_def now_alice new_ColyseusNetworkedEntity_def Let_def
        room_with_alice_eq[symmetric])
     (simp add: room_with_alice_eq created_room_def alice_def)

lemma foldl_delete:
  "foldl (\<lambda>m element. m(element := None)) m ks = m |` (- set ks)"
  by (induction ks arbitrary: m) (auto simp: restrict_map_def fun_eq_iff)

lemma account_taken_iff:
  "account_taken s a \<longleftrightarrow>
     (\<exists>k u. networkedUsers s k = Some u \<and> account (user_profile u) = a)"
  by (auto simp: account_taken_def ran_def)

lemma accounts_unique_alice: "accounts_unique room_with_alice"
  by (auto simp: accounts_unique_def room_with_alice_eq created_room_def split: if_splits)

section \<open>setAttribute: the target discriminant\<close>




text \<open>
  C10.  A setAttribute message whose \<^verbatim>\<open>entityId\<close> is present but falsy (the empty
  string, the number zero) does not take the entity branch: it has the outcome of the
  same message without \<^verbatim>\<open>entityId\<close>, no entity changes (whatever entities the room
  holds, one keyed by the printed falsy id included), and when \<^verbatim>\<open>userId\<close> is not truthy either
  the room does not change at all.
\<close>

theorem setAttribute_falsy_entityId:
  assumes "\<not> truthy (entityId msg)"
  shows "setAttribute s c (Some msg) = setAttribute s c (Some (msg\<lparr>entityId := JUndefined\<rparr>))
       \<and> networkedEntities (state_of (setAttribute s c (Some msg))) = networkedEntities s
       \<and> (\<not> truthy (userId msg) \<longrightarrow> setAttribute s c (Some msg) = Completed s)"
  using assms
  by (cases "userId msg") (auto simp: setAttribute_def split: option.splits)

theorem setAttribute_falsy_entityId_witness:
  "\<not> truthy (entityId zero_message)
   \<and> networkedEntities room_with_zero (js_ToString (entityId zero_message)) \<noteq> None
   \<and> setAttribute room_with_zero alice (Some zero_message) =
       setAttribute room_with_zero alice (Some (zero_message\<lparr>entityId := JUndefined\<rparr>))
   \<and> networkedEntities (state_of (setAttribute room_with_zero alice (Some zero_message))) =
       networkedEntities room_with_zero
   \<and> map_option (\<lambda>u. user_attributes u (JStr ''hp''))
        (networkedUsers (state_of (setAttribute room_with_zero alice (Some zero_message))) ''s1'')
       = Some (Some (JStr ''9''))"
  using setAttribute_falsy_entityId [of zero_message room_with_zero alice]
  by (simp add: zero_message_def room_with_zero_eq fin_toString_def setAttribute_def set_all_def
        room_with_alice_eq)

section \<open>onLeave\<close>

text \<open>
  C8.  A leave with \<open>consented = true\<close> purges at once: \<^verbatim>\<open>onLeave\<close> finishes without
  awaiting \<^verbatim>\<open>allowReconnection\<close> (no such request is added to the effects), and the room
  \<open>p\<close> that it leaves, or hands to \<^verbatim>\<open>ProcessUserLeft\<close> when a module is loaded and the
  index has an entry, holds neither the user record, nor any entity listed under the
  connection in the Ownership Index, nor the index entry.
\<close>

theorem onLeave_consented_purges:
  "onLeave ctrl s c True = Finished (remove_user_and_entities ctrl (mark_disconnected s c) c)
   \<and> (\<exists>p. networkedUsers p (client_sessionId c) = None
          \<and> (\<forall>ids. clientEntities s (client_id c) = Some ids \<longrightarrow>
                (\<forall>k \<in> set ids. networkedEntities p k = None))
          \<and> clientEntities p (client_id c) = None
          \<and> AllowReconnection c 10 \<notin> set (effects p) - set (effects s)
          \<and> remove_user_and_entities ctrl (mark_disconnected s c) c =
              (case (clientEntities s (client_id c), ctrl) of
                 (Some ids, Some ProcessUserLeft) \<Rightarrow> ProcessUserLeft p
               | _ \<Rightarrow> Completed p))"
proof -
  let ?s1 = "mark_disconnected s c"
  have idx: "clientEntities ?s1 = clientEntities s" and eff: "effects ?s1 = effects s"
    by (auto simp: mark_disconnected_def split: option.splits)
  have split: "onLeave ctrl s c True = Finished (remove_user_and_entities ctrl ?s1 c)"
    by (simp add: onLeave_def)
  show ?thesis
  proof (cases "clientEntities s (client_id c)")
    case None
    let ?p = "?s1\<lparr>networkedUsers := (networkedUsers ?s1)(client_sessionId c := None),
                    effects := effects ?s1 @ [LogNoClientEntities (client_id c)]\<rparr>"
    have "remove_user_and_entities ctrl ?s1 c = Completed ?p"
      using None by (simp add: remove_user_and_entities_def idx Let_def)
    with None split show ?thesis
      by (intro conjI exI[of _ ?p]) (auto simp: idx eff)
  next
    case (Some ids)
    let ?p = "?s1\<lparr>networkedUsers := (networkedUsers ?s1)(client_sessionId c := None),
                    networkedEntities := networkedEntities ?s1 |` (- set ids),
                    clientEntities := (clientEntities s)(client_id c := None)\<rparr>"
    have "remove_user_and_entities ctrl ?s1 c =
            (case ctrl of Some ProcessUserLeft \<Rightarrow> ProcessUserLeft ?p | None \<Rightarrow> Completed ?p)"
      using Some
      by (cases ctrl) (simp_all add: remove_user_and_entities_def idx Let_def foldl_delete)
    with Some split show ?thesis
      by (intro conjI exI[of _ ?p]) (auto simp: idx eff split: option.splits)
  qed
qed

theorem onLeave_consented_purges_witness:
  "clientEntities room_with_entity (client_id alice) = Some [''e1'']
   \<and> onLeave None room_with_entity alice True =
       Finished (Completed (created_room\<lparr>effects := effects room_with_alice\<rparr>))"
  using onLeave_consented_purges [of None room_with_entity alice]
  by (simp add: onLeave_def remove_user_and_entities_def mark_disconnected_def
        room_with_entity_eq room_with_alice_eq created_room_def alice_def Let_def)

text \<open>
  C3, as the code has it.  The catch block of \<^verbatim>\<open>onLeave\<close> (reached at once on a consented
  leave, and when the awaited reconnection is rejected) calls \<^verbatim>\<open>ProcessUserLeft\<close> of a loaded
  module when the Ownership Index has an entry for the connection, and then on the room
  from which the user record, the listed entities and the index entry have been removed.
  When the index has no entry, the user record is removed and the diagnostic is logged,
  and the handler completes with that room whatever module is loaded.
\<close>

theorem ProcessUserLeft_after_purge:
  "(\<forall>ids. clientEntities s (client_id c) = Some ids \<longrightarrow>
      remove_user_and_entities (Some ProcessUserLeft) s c =
        ProcessUserLeft (s\<lparr>
          networkedUsers := (networkedUsers s)(client_sessionId c := None),
          networkedEntities := networkedEntities s |` (- set ids),
          clientEntities := (clientEntities s)(client_id c := None)\<rparr>))
   \<and> (clientEntities s (client_id c) = None \<longrightarrow>
        remove_user_and_entities ctrl s c =
          Completed (s\<lparr>
            networkedUsers := (networkedUsers s)(client_sessionId c := None),
            effects := effects s @ [LogNoClientEntities (client_id c)]\<rparr>))
   \<and> onLeave ctrl s c True = Finished (remove_user_and_entities ctrl (mark_disconnected s c) c)
   \<and> onLeave_resume ctrl s c Rejected = remove_user_and_entities ctrl s c"
  by (simp add: remove_user_and_entities_def onLeave_def onLeave_resume_def Let_def foldl_delete)

theorem ProcessUserLeft_after_purge_witness:
  "clientEntities room_with_entity (client_id alice) = Some [''e1'']
   \<and> remove_user_and_entities (Some faulting_hook) room_with_entity alice =
       Threw TypeError (created_room\<lparr>effects := effects room_with_alice\<rparr>)
   \<and> clientEntities room_with_alice (client_id alice) = None
   \<and> remove_user_and_entities (Some faulting_hook) room_with_alice alice =
       Completed (created_room\<lparr>
         effects := effects room_with_alice @ [LogNoClientEntities ''c1'']\<rparr>)"
  using ProcessUserLeft_after_purge [of room_with_entity alice faulting_hook "Some faulting_hook"]
    ProcessUserLeft_after_purge [of room_with_alice alice faulting_hook "Some faulting_hook"]
  by (simp add: room_with_entity_eq room_with_alice_eq created_room_def alice_def faulting_hook_def)

text \<open>
  C3 as the spec states it fails: Alice has joined and created no entity, so the index
  has no entry for her; with a module loaded whose hook throws when called, her consented
  leave and her timed-out leave both complete.  The hook was not called.
\<close>

theorem ProcessUserLeft_skipped_counterexample:
  "networkedUsers room_with_alice (client_sessionId alice) \<noteq> None
   \<and> clientEntities room_with_alice (client_id alice) = None
   \<and> onLeave (Some faulting_hook) room_with_alice alice True =
       Finished (Completed (created_room\<lparr>
         effects := effects room_with_alice @ [LogNoClientEntities ''c1'']\<rparr>))
   \<and> onLeave_resume (Some faulting_hook) room_with_alice alice Rejected =
       Completed (created_room\<lparr>
         effects := effects room_with_alice @ [LogNoClientEntities ''c1'']\<rparr>)"
  by (simp add: onLeave_def onLeave_resume_def remove_user_and_entities_def mark_disconnected_def
        room_with_alice_eq created_room_def alice_def Let_def)

text \<open>
  C1 at a concrete room: Alice, connected, leaves without consent; \<^verbatim>\<open>onLeave\<close> marks her
  record disconnected and awaits \<^verbatim>\<open>allowReconnection(client, 10)\<close>; the reconnection
  arrives, the continuation completes and changes nothing.  Her entities are intact, and
  her record still has \<open>connected = false\<close>.
\<close>

theorem reconnected_user_stays_disconnected:
  "map_option connected (networkedUsers room_with_entity ''s1'') = Some True
   \<and> onLeave None room_with_entity alice False = Awaiting room_alice_away
   \<and> effects room_alice_away = effects room_with_entity @ [AllowReconnection alice 10]
   \<and> onLeave_resume None room_alice_away alice (Reconnected alice) = Completed room_alice_away
   \<and> map_option connected (networkedUsers room_alice_away ''s1'') = Some False
   \<and> networkedEntities room_alice_away = networkedEntities room_with_entity"
  by (simp add: room_alice_away_def onLeave_def onLeave_resume_def mark_disconnected_def Let_def
        room_with_entity_eq room_with_alice_eq created_room_def alice_def
        new_ColyseusNetworkedUser_def)

section \<open>onEntityUpdate\<close>

text \<open>
  C6 at a concrete room: an entityUpdate in attribute mode whose last property has no
  value token throws a TypeError at \<^verbatim>\<open>updateValue.toString()\<close>; the pairs before it are
  written and the timestamp is not stamped.
\<close>

theorem entityUpdate_missing_value_throws:
  "on_entityUpdate_message assign room_with_entity alice
     [JStr ''e1'', JStr ''attributes'', JStr ''score''] = Threw TypeError room_with_entity
   \<and> on_entityUpdate_message assign room_with_entity alice
       [JStr ''e1'', JStr ''attributes'', JStr ''hp'', JStr ''7'', JStr ''score''] =
       Threw TypeError (room_with_entity\<lparr>networkedEntities :=
         [''e1'' \<mapsto> (new_ColyseusNetworkedEntity ''e1'' ''c1'' (Fin 0 0))
            \<lparr>entity_attributes := [JStr ''score'' \<mapsto> JStr ''5'', JStr ''hp'' \<mapsto> JStr ''7'']\<rparr>]\<rparr>)"
  by (simp add: on_entityUpdate_message_def onEntityUpdate_def entityUpdate_loop.simps data_at_def
        room_with_entity_eq Let_def)

section \<open>onJoin\<close>

text \<open>
  The accounts of the stored users stay pairwise different under every other operation:
  none of them stores a user or changes a profile.
\<close>

lemma users_entityUpdate:
  "networkedUsers (state_of (on_entityUpdate_message assign s c data)) = networkedUsers s"
  by (auto simp: on_entityUpdate_message_def onEntityUpdate_def Let_def
           split: option.splits prod.splits)

lemma users_createEntity:
  "networkedUsers (state_of (on_createEntity_message s c m k)) = networkedUsers s"
  by (auto simp: on_createEntity_message_def Let_def split: option.splits sum.splits)

lemma users_removeEntity:
  "networkedUsers (state_of (on_removeEntity_message s c k)) = networkedUsers s"
  by (auto simp: on_removeEntity_message_def split: jsval.splits)

lemma accounts_unique_cong:
  "networkedUsers s' = networkedUsers s \<Longrightarrow> accounts_unique s \<Longrightarrow> accounts_unique s'"
  by (simp add: accounts_unique_def)

lemma accounts_unique_update_same_profile:
  assumes "accounts_unique s" and "networkedUsers s k = Some u"
    and "user_profile u' = user_profile u"
  shows "accounts_unique (r\<lparr>networkedUsers := (networkedUsers s)(k \<mapsto> u')\<rparr>)"
  unfolding accounts_unique_def
proof (intro allI impI)
  fix k1 k2 u1 u2
  assume a: "networkedUsers (r\<lparr>networkedUsers := (networkedUsers s)(k \<mapsto> u')\<rparr>) k1 = Some u1"
    and b: "networkedUsers (r\<lparr>networkedUsers := (networkedUsers s)(k \<mapsto> u')\<rparr>) k2 = Some u2"
    and eq: "account (user_profile u1) = account (user_profile u2)"
  from a assms(2,3) obtain v1 where v1: "networkedUsers s k1 = Some v1"
    "account (user_profile v1) = account (user_profile u1)"
    by (cases "k1 = k") auto
  from b assms(2,3) obtain v2 where v2: "networkedUsers s k2 = Some v2"
    "account (user_profile v2) = account (user_profile u2)"
    by (cases "k2 = k") auto
  from v1 v2 eq assms(1) show "k1 = k2"
    unfolding accounts_unique_def by metis
qed

lemma accounts_unique_setAttribute:
  assumes "accounts_unique s"
  shows "accounts_unique (state_of (setAttribute s c m))"
proof -
  have same: "accounts_unique (s\<lparr>networkedEntities := x\<rparr>)"
    and same': "accounts_unique (s\<lparr>effects := y\<rparr>)" for x y
    by (rule accounts_unique_cong[OF _ assms], simp)+
  have upd: "accounts_unique (s\<lparr>networkedUsers := (networkedUsers s)(k \<mapsto>
               u\<lparr>user_timestamp := t, user_attributes := a\<rparr>)\<rparr>)"
    if "networkedUsers s k = Some u" for k u t a
    using accounts_unique_update_same_profile[OF assms that, of _ s] by simp
  show ?thesis
    using assms same same' upd
    by (simp add: setAttribute_def split: option.splits)
qed

lemma accounts_unique_mark_disconnected:
  assumes "accounts_unique s"
  shows "accounts_unique (mark_disconnected s c)"
proof (cases "networkedUsers s (client_sessionId c)")
  case None
  with assms show ?thesis by (simp add: mark_disconnected_def)
next
  case (Some u)
  from accounts_unique_update_same_profile[OF assms Some, of "u\<lparr>connected := False\<rparr>" s] Some
  show ?thesis by (simp add: mark_disconnected_def)
qed

lemma accounts_unique_delete:
  assumes "accounts_unique s"
  shows "accounts_unique (r\<lparr>networkedUsers := (networkedUsers s)(k := None)\<rparr>)"
  unfolding accounts_unique_def
proof (intro allI impI)
  fix k1 k2 u1 u2
  assume a: "networkedUsers (r\<lparr>networkedUsers := (networkedUsers s)(k := None)\<rparr>) k1 = Some u1"
    and b: "networkedUsers (r\<lparr>networkedUsers := (networkedUsers s)(k := None)\<rparr>) k2 = Some u2"
    and eq: "account (user_profile u1) = account (user_profile u2)"
  from a have "networkedUsers s k1 = Some u1" by (cases "k1 = k") auto
  moreover from b have "networkedUsers s k2 = Some u2" by (cases "k2 = k") auto
  ultimately show "k1 = k2"
    using eq assms unfolding accounts_unique_def by blast
qed

lemma accounts_unique_remove:
  assumes "accounts_unique s"
    and "\<And>h r. ctrl = Some h \<Longrightarrow> accounts_unique r \<Longrightarrow> accounts_unique (state_of (h r))"
  shows "accounts_unique (state_of (remove_user_and_entities ctrl s c))"
proof (cases "clientEntities s (client_id c)")
  case None
  have "accounts_unique (s\<lparr>networkedUsers := (networkedUsers s)(client_sessionId c := None),
          effects := effects s @ [LogNoClientEntities (client_id c)]\<rparr>)"
    by (rule accounts_unique_cong
          [OF _ accounts_unique_delete[OF assms(1), where r = s and k = "client_sessionId c"]])
       simp
  with None show ?thesis
    by (simp add: remove_user_and_entities_def Let_def)
next
  case (Some ids)
  let ?p = "s\<lparr>networkedUsers := (networkedUsers s)(client_sessionId c := None),
              networkedEntities := networkedEntities s |` (- set ids),
              clientEntities := (clientEntities s)(client_id c := None)\<rparr>"
  have p: "accounts_unique ?p"
    by (rule accounts_unique_cong
          [OF _ accounts_unique_delete[OF assms(1), where r = s and k = "client_sessionId c"]])
       simp
  have run: "remove_user_and_entities ctrl s c =
          (case ctrl of Some h \<Rightarrow> h ?p | None \<Rightarrow> Completed ?p)"
    using Some by (cases ctrl) (simp_all add: remove_user_and_entities_def Let_def foldl_delete)
  show ?thesis
  proof (cases ctrl)
    case None
    with run p show ?thesis by simp
  next
    case (Some h)
    from assms(2)[OF Some p] run Some show ?thesis by simp
  qed
qed

lemma accounts_unique_step:
  assumes "accounts_unique s"
    and "\<And>h r. ctrl = Some h \<Longrightarrow> accounts_unique r \<Longrightarrow> accounts_unique (state_of (h r))"
  shows "accounts_unique (step assign ctrl s cmd)"
proof (cases cmd)
  case (CreateEntity c m k)
  with assms(1) show ?thesis
    by (simp add: accounts_unique_cong[OF users_createEntity])
next
  case (RemoveEntity c k)
  with assms(1) show ?thesis
    by (simp add: accounts_unique_cong[OF users_removeEntity])
next
  case (EntityUpdate c data)
  with assms(1) show ?thesis
    by (simp add: accounts_unique_cong[OF users_entityUpdate])
next
  case (SetAttribute c m)
  with assms(1) show ?thesis
    by (simp add: accounts_unique_setAttribute)
next
  case (Leave c consented)
  have away: "accounts_unique ((mark_disconnected s c)\<lparr>effects := eff\<rparr>)" for eff
    by (rule accounts_unique_cong[OF _ accounts_unique_mark_disconnected[OF assms(1), of c]])
       simp
  have "accounts_unique (state_of (remove_user_and_entities ctrl (mark_disconnected s c) c))"
    by (rule accounts_unique_remove)
       (rule accounts_unique_mark_disconnected[OF assms(1)], rule assms(2))
  with away Leave show ?thesis
    by (simp add: onLeave_def Let_def)
next
  case (LeaveResume c r)
  have "accounts_unique (state_of (remove_user_and_entities ctrl s c))"
    by (rule accounts_unique_remove) (rule assms(1), rule assms(2))
  with assms(1) LeaveResume show ?thesis
    by (cases r) (simp_all add: onLeave_resume_def)
qed

lemma onJoin_accounts_unique:
  assumes "accounts_unique s"
  shows "accounts_unique (state_of (onJoin s c options))"
proof (cases "account_taken s (account options)")
  case True
  then show ?thesis using assms
    by (simp add: onJoin_def Let_def new_ColyseusNetworkedUser_def accounts_unique_def)
next
  case False
  then have fresh: "\<And>k u. networkedUsers s k = Some u \<Longrightarrow> account (user_profile u) \<noteq> account options"
    by (auto simp: account_taken_iff)
  from False have st: "networkedUsers (state_of (onJoin s c options)) =
      (networkedUsers s)(client_sessionId c \<mapsto>
         new_ColyseusNetworkedUser (client_id c) (client_sessionId c) options)"
    by (simp add: onJoin_def Let_def new_ColyseusNetworkedUser_def)
  have acc: "account (user_profile
      (new_ColyseusNetworkedUser (client_id c) (client_sessionId c) options)) = account options"
    by (simp add: new_ColyseusNetworkedUser_def)
  show ?thesis
    unfolding accounts_unique_def st
  proof (intro allI impI)
    fix k k' u u'
    assume k: "((networkedUsers s)(client_sessionId c \<mapsto>
         new_ColyseusNetworkedUser (client_id c) (client_sessionId c) options)) k = Some u"
      and k': "((networkedUsers s)(client_sessionId c \<mapsto>
         new_ColyseusNetworkedUser (client_id c) (client_sessionId c) options)) k' = Some u'"
      and eq: "account (user_profile u) = account (user_profile u')"
    show "k = k'"
    proof (cases "k = client_sessionId c")
      case True
      with k acc have "account (user_profile u) = account options" by auto
      with eq fresh k' True show ?thesis
        by (cases "k' = client_sessionId c") auto
    next
      case False
      with k have old: "networkedUsers s k = Some u" by simp
      show ?thesis
      proof (cases "k' = client_sessionId c")
        case True
        with k' acc have "account (user_profile u') = account options" by auto
        with eq fresh old show ?thesis by auto
      next
        case False
        with k' have "networkedUsers s k' = Some u'" by simp
        with old eq assms show ?thesis
          unfolding accounts_unique_def by blast
      qed
    qed
  qed
qed

text \<open>
  C7.  In a room whose stored users have pairwise different accounts: a join whose
  account is that of a stored user is rejected, the only change being the "WalletNotPass"
  notice to the requester, and exactly one stored user has that account afterwards; a
  join with an account no stored user has stores a new user with \<open>connected = true\<close>
  under the session id and sends it to the requester in "onJoin".  Either way the
  accounts stay pairwise different.
\<close>

theorem onJoin_account_deduplication:
  assumes "accounts_unique s"
  shows "((\<exists>k u. networkedUsers s k = Some u \<and> account (user_profile u) = account options) \<longrightarrow>
            onJoin s c options = Completed (s\<lparr>effects := effects s @ [SendWalletNotPass c]\<rparr>)
            \<and> (\<exists>!k. \<exists>u. networkedUsers (state_of (onJoin s c options)) k = Some u
                       \<and> account (user_profile u) = account options))
       \<and> (\<not> (\<exists>k u. networkedUsers s k = Some u \<and> account (user_profile u) = account options) \<longrightarrow>
            (\<exists>newNetworkedUser.
               onJoin s c options =
                 Completed (s\<lparr>
                   networkedUsers := (networkedUsers s)(client_sessionId c \<mapsto> newNetworkedUser),
                   effects := effects s @ [SendOnJoin c newNetworkedUser]\<rparr>)
               \<and> connected newNetworkedUser
               \<and> user_id newNetworkedUser = client_id c
               \<and> user_sessionId newNetworkedUser = client_sessionId c
               \<and> user_profile newNetworkedUser = options))
       \<and> accounts_unique (state_of (onJoin s c options))"
proof (intro conjI impI)
  assume dup: "\<exists>k u. networkedUsers s k = Some u \<and> account (user_profile u) = account options"
  then have taken: "account_taken s (account options)"
    by (simp add: account_taken_iff)
  then show rej: "onJoin s c options = Completed (s\<lparr>effects := effects s @ [SendWalletNotPass c]\<rparr>)"
    by (simp add: onJoin_def Let_def new_ColyseusNetworkedUser_def)
  from dup obtain k u where ku: "networkedUsers s k = Some u" "account (user_profile u) = account options"
    by blast
  show "\<exists>!k. \<exists>u. networkedUsers (state_of (onJoin s c options)) k = Some u
                 \<and> account (user_profile u) = account options"
    unfolding rej
  proof (rule ex1I[of _ k])
    show "\<exists>u. networkedUsers (state_of (Completed (s\<lparr>effects := effects s @ [SendWalletNotPass c]\<rparr>))) k = Some u
               \<and> account (user_profile u) = account options"
      using ku by simp
  next
    fix k'
    assume "\<exists>u. networkedUsers (state_of (Completed (s\<lparr>effects := effects s @ [SendWalletNotPass c]\<rparr>))) k' = Some u
               \<and> account (user_profile u) = account options"
    then obtain u' where "networkedUsers s k' = Some u'" "account (user_profile u') = account options"
      by auto
    with ku assms show "k' = k"
      unfolding accounts_unique_def by metis
  qed
next
  assume "\<not> (\<exists>k u. networkedUsers s k = Some u \<and> account (user_profile u) = account options)"
  then have "\<not> account_taken s (account options)"
    by (simp add: account_taken_iff)
  then show "\<exists>newNetworkedUser.
               onJoin s c options =
                 Completed (s\<lparr>
                   networkedUsers := (networkedUsers s)(client_sessionId c \<mapsto> newNetworkedUser),
                   effects := effects s @ [SendOnJoin c newNetworkedUser]\<rparr>)
               \<and> connected newNetworkedUser
               \<and> user_id newNetworkedUser = client_id c
               \<and> user_sessionId newNetworkedUser = client_sessionId c
               \<and> user_profile newNetworkedUser = options"
    by (intro exI[of _ "new_ColyseusNetworkedUser (client_id c) (client_sessionId c) options"])
       (simp add: onJoin_def Let_def new_ColyseusNetworkedUser_def)
next
  show "accounts_unique (state_of (onJoin s c options))"
    by (rule onJoin_accounts_unique[OF assms])
qed

theorem onJoin_account_deduplication_witness:
  "accounts_unique room_with_alice
   \<and> onJoin room_with_alice bob (plain_profile (Some ''A'')) =
       Completed (room_with_alice\<lparr>effects := effects room_with_alice @ [SendWalletNotPass bob]\<rparr>)
   \<and> (\<exists>!k. \<exists>u. networkedUsers
                  (state_of (onJoin room_with_alice bob (plain_profile (Some ''A'')))) k = Some u
               \<and> account (user_profile u) = account (plain_profile (Some ''A'')))
   \<and> map_option connected
        (networkedUsers (state_of (onJoin room_with_alice bob (plain_profile (Some ''B'')))) ''s2'')
       = Some True"
proof -
  have dup: "\<exists>k u. networkedUsers room_with_alice k = Some u
                  \<and> account (user_profile u) = account (plain_profile (Some ''A''))"
    by (simp add: room_with_alice_eq created_room_def new_ColyseusNetworkedUser_def)
  have new: "\<not> (\<exists>k u. networkedUsers room_with_alice k = Some u
                  \<and> account (user_profile u) = account (plain_profile (Some ''B'')))"
    by (simp add: room_with_alice_eq created_room_def new_ColyseusNetworkedUser_def plain_profile_def)
  from onJoin_account_deduplication [OF accounts_unique_alice, of "plain_profile (Some ''A'')" bob]
       onJoin_account_deduplication [OF accounts_unique_alice, of "plain_profile (Some ''B'')" bob]
       dup new accounts_unique_alice
  show ?thesis
    by (auto simp: bob_def)
qed


text \<open>
  C9.  Two joins whose profiles both omit \<^verbatim>\<open>account\<close>, into a room with no account-less
  user: the first is admitted, the second gets the "WalletNotPass" notice and changes
  nothing else, and the first user is still stored.
\<close>

theorem onJoin_two_without_account:
  assumes "account o1 = None" and "account o2 = None" and "\<not> account_taken s None"
  shows "onJoin s c1 o1 =
           Completed (s\<lparr>
             networkedUsers := (networkedUsers s)(client_sessionId c1 \<mapsto>
               new_ColyseusNetworkedUser (client_id c1) (client_sessionId c1) o1),
             effects := effects s @
               [SendOnJoin c1 (new_ColyseusNetworkedUser (client_id c1) (client_sessionId c1) o1)]\<rparr>)
       \<and> onJoin (state_of (onJoin s c1 o1)) c2 o2 =
           Completed ((state_of (onJoin s c1 o1))\<lparr>
             effects := effects (state_of (onJoin s c1 o1)) @ [SendWalletNotPass c2]\<rparr>)
       \<and> networkedUsers (state_of (onJoin (state_of (onJoin s c1 o1)) c2 o2)) (client_sessionId c1)
           = Some (new_ColyseusNetworkedUser (client_id c1) (client_sessionId c1) o1)"
proof -
  let ?u1 = "new_ColyseusNetworkedUser (client_id c1) (client_sessionId c1) o1"
  let ?s1 = "s\<lparr>networkedUsers := (networkedUsers s)(client_sessionId c1 \<mapsto> ?u1),
               effects := effects s @ [SendOnJoin c1 ?u1]\<rparr>"
  have first: "onJoin s c1 o1 = Completed ?s1"
    using assms(1,3) by (simp add: onJoin_def Let_def new_ColyseusNetworkedUser_def)
  have "account_taken ?s1 None"
    using assms(1) by (auto simp: account_taken_iff new_ColyseusNetworkedUser_def)
  then have second: "onJoin ?s1 c2 o2 = Completed (?s1\<lparr>effects := effects ?s1 @ [SendWalletNotPass c2]\<rparr>)"
    using assms(2) by (simp add: onJoin_def Let_def new_ColyseusNetworkedUser_def)
  show ?thesis
    unfolding first state_of.simps second by simp
qed

theorem onJoin_two_without_account_witness:
  "account (plain_profile None) = None \<and> \<not> account_taken room_with_alice None
   \<and> onJoin (state_of (onJoin room_with_alice bob (plain_profile None))) alice (plain_profile None)
       = Completed ((state_of (onJoin room_with_alice bob (plain_profile None)))\<lparr>
           effects := effects (state_of (onJoin room_with_alice bob (plain_profile None)))
                      @ [SendWalletNotPass alice]\<rparr>)"
proof -
  have h1: "account (plain_profile None) = None"
    by (simp add: plain_profile_def)
  have h3: "\<not> account_taken room_with_alice None"
    by (simp add: account_taken_def room_with_alice_eq created_room_def
          new_ColyseusNetworkedUser_def plain_profile_def)
  from onJoin_two_without_account [OF h1 h1 h3, of bob alice] h1 h3
  show ?thesis by blast
qed


section \<open>The Ownership Index\<close>




















section \<open>onEntityUpdate: the increment opcode\<close>

text \<open>
  C4.  For an existing entity whose attribute \<open>score\<close> holds \<open>"5"\<close>, the entityUpdate
  message \<^verbatim>\<open>[id, "attributes", "score", "inc", "3"]\<close> completes; afterwards \<open>score\<close> holds
  \<open>"8"\<close>, the timestamp is the server time, and nothing else of the entity or the room has
  changed.  The loop is at index 5 after the increment, whatever tokens follow: the amount
  token is not read as a property.  (The server time is a number in canonical form, as
  every number that parsing and addition produce.)
\<close>

theorem entityUpdate_score_increment:
  assumes "networkedEntities s k = Some e"
    and "entity_attributes e (JStr ''score'') = Some (JStr ''5'')"
    and "canonical (serverTime s)"
  shows "on_entityUpdate_message assign s c
           [JStr k, JStr ''attributes'', JStr ''score'', JStr ''inc'', JStr ''3''] =
         Completed (s\<lparr>networkedEntities := (networkedEntities s)(k \<mapsto>
           e\<lparr>entity_attributes := (entity_attributes e)(JStr ''score'' \<mapsto> JStr ''8''),
             entity_timestamp := Some (serverTime s)\<rparr>)\<rparr>)
       \<and> entityUpdate_loop assign 2
           ([JStr k, JStr ''attributes'', JStr ''score'', JStr ''inc'', JStr ''3''] @ rest) 2 e =
         entityUpdate_loop assign 2
           ([JStr k, JStr ''attributes'', JStr ''score'', JStr ''inc'', JStr ''3''] @ rest) 5
           (e\<lparr>entity_attributes := (entity_attributes e)(JStr ''score'' \<mapsto> JStr ''8'')\<rparr>)"
proof -
  let ?data = "[JStr k, JStr ''attributes'', JStr ''score'', JStr ''inc'', JStr ''3'']"
  let ?e' = "e\<lparr>entity_attributes := (entity_attributes e)(JStr ''score'' \<mapsto> JStr ''8'')\<rparr>"
  have "attr_get e (JStr ''score'') = JStr ''5''"
    using assms(2) by (simp add: attr_get_def)
  then have amount: "method_toString
      (JNum (num_add (js_parseFloat (attr_get e (JStr ''score''))) (js_parseFloat (JStr ''3''))))
      = Inr ''8''"
    by (simp only: js_parseFloat_def js_ToString.simps method_toString.simps five_plus_three)
  have first: "entityUpdate_loop assign 2 (?data @ rest) 2 e =
               entityUpdate_loop assign 2 (?data @ rest) 5 ?e'" for rest
  proof -
    have "entityUpdate_loop assign 2 (?data @ rest) 2 e =
          (case method_toString
             (JNum (num_add (js_parseFloat (attr_get e (JStr ''score'')))
                            (js_parseFloat (JStr ''3'')))) of
             Inl err \<Rightarrow> (Some err, e)
           | Inr str \<Rightarrow>
               entityUpdate_loop assign 2 (?data @ rest) 5
                 (e\<lparr>entity_attributes := (entity_attributes e)(JStr ''score'' \<mapsto> JStr str)\<rparr>))"
      by (subst entityUpdate_loop.simps) (simp add: data_at_def Let_def del: num_add.simps)
    then show ?thesis
      by (simp only: amount sum.case)
  qed
  have last: "entityUpdate_loop assign 2 ?data 5 ?e' = (None, ?e')"
    by (subst entityUpdate_loop.simps) simp
  have loop: "entityUpdate_loop assign 2 ?data 2 e = (None, ?e')"
    using first[of "[]"] last by simp
  have "on_entityUpdate_message assign s c ?data =
        Completed (s\<lparr>networkedEntities := (networkedEntities s)(k \<mapsto>
           ?e'\<lparr>entity_timestamp := Some (now s)\<rparr>)\<rparr>)"
    using assms(1)
    by (simp add: on_entityUpdate_message_def onEntityUpdate_def data_at_def loop)
  with now_canonical[OF assms(3)] first[of rest] show ?thesis
    by simp
qed


theorem entityUpdate_score_increment_witness:
  "map_option (\<lambda>e. entity_attributes e (JStr ''score'')) (networkedEntities room_with_entity ''e1'')
     = Some (Some (JStr ''5''))
   \<and> canonical (serverTime room_with_entity)
   \<and> map_option (\<lambda>e. (entity_attributes e (JStr ''score''), entity_timestamp e))
        (networkedEntities
           (state_of (on_entityUpdate_message ignore_field room_with_entity alice
              [JStr ''e1'', JStr ''attributes'', JStr ''score'', JStr ''inc'', JStr ''3''])) ''e1'')
      = Some (Some (JStr ''8''), Some (Fin 0 0))"
proof -
  let ?e = "(new_ColyseusNetworkedEntity ''e1'' ''c1'' (Fin 0 0))
              \<lparr>entity_attributes := [JStr ''score'' \<mapsto> JStr ''5'']\<rparr>"
  have e: "networkedEntities room_with_entity ''e1'' = Some ?e"
    by (simp add: room_with_entity_eq)
  have score: "entity_attributes ?e (JStr ''score'') = Some (JStr ''5'')"
    by simp
  have time: "serverTime room_with_entity = Fin 0 0"
    by (simp add: room_with_entity_eq room_with_alice_eq created_room_def)
  then have can: "canonical (serverTime room_with_entity)"
    by (simp add: canonical_def)
  from entityUpdate_score_increment[OF e score can, of ignore_field alice] e can time
  show ?thesis by simp
qed

end
